theory Spec2Isabelle
  imports Main "HOL-Library.Word" "HOL-Library.Char_ord" "HOL-Library.List_Lexorder"
begin

unbundle bit_operations_syntax

section \<open>Python values used by the program\<close>

text \<open>
  Exceptions are values. The first seven constructors are the classes of
  \<^verbatim>\<open>base/exceptions.py\<close>, \<open>StreamClosedError\<close> is tornado's, the others are
  Python built-ins that the code can raise without catching them.
\<close>

datatype error =
    ListenerClosedException
  | MessageException
  | DecodeMessageError
  | EncodeMessageError
  | InvalidMessageException
  | ServerException
  | SourceException
  | StreamClosedError
  | IndexError
  | KeyError
  | OverflowError
  | ValueError
  | TypeError
  | AttributeError
  | RuntimeError
  | UnicodeDecodeError

type_synonym byte = "8 word"
type_synonym bytes = "byte list"

text \<open>
  A Python \<^verbatim>\<open>str\<close> is represented by the \<open>string\<close> of the bytes of its UTF-8 encoding,
  one \<open>char\<close> per byte: \<^verbatim>\<open>str.encode()\<close> then only changes the element type, and
  \<^verbatim>\<open>bytes.decode()\<close> succeeds exactly on well-formed UTF-8. Python compares strings by
  code point, which is the lexicographic order of the UTF-8 bytes, the order of
  \<open>string\<close> here.
\<close>

definition str_encode :: "string \<Rightarrow> bytes" where
  "str_encode s = map (\<lambda>c. of_nat (of_char c)) s"

definition cont :: "byte \<Rightarrow> bool" where
  "cont b \<longleftrightarrow> 0x80 \<le> b \<and> b \<le> 0xBF"

text \<open>Well-formed UTF-8 (the table of the Unicode standard, which Python's decoder follows).\<close>

fun utf8_valid :: "bytes \<Rightarrow> bool" where
  "utf8_valid [] = True"
| "utf8_valid (b # bs) =
     (if b < 0x80 then utf8_valid bs
      else if 0xC2 \<le> b \<and> b \<le> 0xDF then
        (case bs of c1 # r \<Rightarrow> cont c1 \<and> utf8_valid r | _ \<Rightarrow> False)
      else if 0xE0 \<le> b \<and> b \<le> 0xEF then
        (case bs of c1 # c2 # r \<Rightarrow>
           (if b = 0xE0 then 0xA0 \<le> c1 \<and> c1 \<le> 0xBF
            else if b = 0xED then 0x80 \<le> c1 \<and> c1 \<le> 0x9F
            else cont c1) \<and> cont c2 \<and> utf8_valid r
         | _ \<Rightarrow> False)
      else if 0xF0 \<le> b \<and> b \<le> 0xF4 then
        (case bs of c1 # c2 # c3 # r \<Rightarrow>
           (if b = 0xF0 then 0x90 \<le> c1 \<and> c1 \<le> 0xBF
            else if b = 0xF4 then 0x80 \<le> c1 \<and> c1 \<le> 0x8F
            else cont c1) \<and> cont c2 \<and> cont c3 \<and> utf8_valid r
         | _ \<Rightarrow> False)
      else False)"

definition bytes_decode :: "bytes \<Rightarrow> error + string" where
  "bytes_decode bs =
     (if utf8_valid bs then Inr (map (\<lambda>b. char_of (unat b)) bs) else Inl UnicodeDecodeError)"

text \<open>\<^verbatim>\<open>s.replace('\0', '')\<close>\<close>

definition strip_nul :: "string \<Rightarrow> string" where
  "strip_nul s = filter (\<lambda>c. c \<noteq> CHR 0x00) s"

text \<open>\<^verbatim>\<open>v.to_bytes(n, 'big')\<close>: OverflowError for a negative value or one too big for \<open>n\<close> bytes.\<close>

fun be_bytes :: "nat \<Rightarrow> int \<Rightarrow> bytes" where
  "be_bytes 0 v = []"
| "be_bytes (Suc n) v = be_bytes n (v div 256) @ [word_of_int v]"

definition to_bytes :: "int \<Rightarrow> nat \<Rightarrow> error + bytes" where
  "to_bytes v n = (if v < 0 \<or> 256 ^ n \<le> v then Inl OverflowError else Inr (be_bytes n v))"

text \<open>\<^verbatim>\<open>int.from_bytes(bs, 'big')\<close>\<close>

definition from_bytes :: "bytes \<Rightarrow> int" where
  "from_bytes bs = foldl (\<lambda>acc b. acc * 256 + uint b) 0 bs"

text \<open>\<^verbatim>\<open>bytes(xs)\<close> for a list of ints: ValueError unless every element is in \<open>range(256)\<close>.\<close>

definition bytes_of_ints :: "int list \<Rightarrow> error + bytes" where
  "bytes_of_ints xs =
     (if list_all (\<lambda>x. 0 \<le> x \<and> x < 256) xs then Inr (map word_of_int xs) else Inl ValueError)"

text \<open>\<^verbatim>\<open>str(i)\<close> for an int.\<close>

definition digit :: "nat \<Rightarrow> char" where
  "digit d = char_of (48 + d)"

fun str_nat :: "nat \<Rightarrow> string" where
  "str_nat n = (if n < 10 then [digit n] else str_nat (n div 10) @ [digit (n mod 10)])"

declare str_nat.simps [simp del]

definition str_int :: "int \<Rightarrow> string" where
  "str_int i = (if i < 0 then CHR ''-'' # str_nat (nat (- i)) else str_nat (nat i))"

text \<open>
  \<^verbatim>\<open>template.format(*args)\<close> for templates whose only replacement fields are \<^verbatim>\<open>{}\<close>, as all
  templates of the program are: each \<^verbatim>\<open>{}\<close> takes the next argument, and a field with no
  argument left raises IndexError.
\<close>

fun format :: "string \<Rightarrow> string list \<Rightarrow> error + string" where
  "format [] args = Inr []"
| "format [c] args = Inr [c]"
| "format (c # d # rest) args =
     (if c = CHR ''{'' \<and> d = CHR ''}'' then
        (case args of
           [] \<Rightarrow> Inl IndexError
         | a # args' \<Rightarrow> (case format rest args' of Inl e \<Rightarrow> Inl e | Inr r \<Rightarrow> Inr (a @ r)))
      else (case format (d # rest) args of Inl e \<Rightarrow> Inl e | Inr r \<Rightarrow> Inr (c # r)))"

text \<open>
  \<^verbatim>\<open>raise E(msg)\<close>: the message expression is evaluated first, so an exception of that
  evaluation replaces \<open>E\<close>.
\<close>

definition raise_msg :: "error \<Rightarrow> error + string \<Rightarrow> error + 'a" where
  "raise_msg e msg = (case msg of Inl e' \<Rightarrow> Inl e' | Inr _ \<Rightarrow> Inl e)"

text \<open>
  A \<^verbatim>\<open>dict\<close> is an association list with distinct keys, in insertion order.
  \<open>dict_set\<close> is \<^verbatim>\<open>d[k] = v\<close>, \<open>dict_get\<close> is \<^verbatim>\<open>d[k]\<close>, \<open>dict_pop\<close> is \<^verbatim>\<open>d.pop(k)\<close>
  (its returned value is never used by the program).
\<close>

type_synonym ('k, 'v) dict = "('k \<times> 'v) list"

fun dict_set :: "('k, 'v) dict \<Rightarrow> 'k \<Rightarrow> 'v \<Rightarrow> ('k, 'v) dict" where
  "dict_set [] k v = [(k, v)]"
| "dict_set ((k', v') # d) k v = (if k' = k then (k, v) # d else (k', v') # dict_set d k v)"

definition dict_get :: "('k, 'v) dict \<Rightarrow> 'k \<Rightarrow> error + 'v" where
  "dict_get d k = (case map_of d k of None \<Rightarrow> Inl KeyError | Some v \<Rightarrow> Inr v)"

definition dict_pop :: "('k, 'v) dict \<Rightarrow> 'k \<Rightarrow> error + ('k, 'v) dict" where
  "dict_pop d k =
     (if k \<in> fst ` set d then Inr (filter (\<lambda>kv. fst kv \<noteq> k) d) else Inl KeyError)"

section \<open>base/message.py\<close>

subsection \<open>Helpers\<close>

definition xor_checksum :: "bytes \<Rightarrow> error + byte" where
  "xor_checksum bytes_data =
     (case bytes_data of
        [] \<Rightarrow> Inl TypeError
      | b # bs \<Rightarrow> Inr (foldl (XOR) b bs))"

definition trim_bytes :: "bytes \<Rightarrow> nat \<Rightarrow> bytes" where
  "trim_bytes bytes_data num =
     (let data = take num bytes_data
      in if length data < num then replicate (num - length data) 0 @ data else data)"

subsection \<open>AbstractMessage\<close>

text \<open>
  \<open>check_sum\<close> and \<open>encode\<close> are inherited; the subclass's \<open>get_raw\<close> is the first
  argument. \<open>check_sum\<close> takes the message's own raw bytes when \<open>bytes_data\<close> is absent
  or empty. The checksum is an int in \<open>range(256)\<close>, kept as a byte.
\<close>

definition check_sum :: "('m \<Rightarrow> error + bytes) \<Rightarrow> 'm \<Rightarrow> bytes option \<Rightarrow> error + byte" where
  "check_sum get_raw self bytes_data =
     (case bytes_data of
        Some (b # bs) \<Rightarrow> xor_checksum (b # bs)
      | _ \<Rightarrow> (case get_raw self of Inl e \<Rightarrow> Inl e | Inr raw \<Rightarrow> xor_checksum raw))"

definition encode :: "('m \<Rightarrow> error + bytes) \<Rightarrow> 'm \<Rightarrow> error + bytes" where
  "encode get_raw self =
     (case get_raw self of
        Inl e \<Rightarrow> Inl e
      | Inr raw_body \<Rightarrow>
          (case check_sum get_raw self (Some raw_body) of
             Inl e \<Rightarrow> Inl e
           | Inr c \<Rightarrow> Inr (raw_body @ [c])))"

subsection \<open>SourceMessage\<close>

text \<open>The receipt time \<open>date_received\<close> is not on the wire and is left out.\<close>

record SourceMessage =
  header :: int
  num :: int
  source_id :: string
  status :: int
  data :: "(string, int) dict option"

definition STATUS_IDLE :: int where "STATUS_IDLE = 0x01"
definition STATUS_ACTIVE :: int where "STATUS_ACTIVE = 0x02"
definition STATUS_RECHARGE :: int where "STATUS_RECHARGE = 0x03"

definition STATUS :: "(int, string) dict" where
  "STATUS = [(STATUS_IDLE, ''IDLE''), (STATUS_ACTIVE, ''ACTIVE''), (STATUS_RECHARGE, ''RECHARGE'')]"

definition SourceMessage_DEFAULT_HEADER :: int where
  "SourceMessage_DEFAULT_HEADER = 0x01"

definition SourceMessage_HEADERS :: "int list" where
  "SourceMessage_HEADERS = [SourceMessage_DEFAULT_HEADER]"

text \<open>\<^verbatim>\<open>not header\<close> holds for \<^verbatim>\<open>None\<close> and for \<open>0\<close>.\<close>

definition SourceMessage_init ::
  "int \<Rightarrow> string \<Rightarrow> int \<Rightarrow> int option \<Rightarrow> (string, int) dict option \<Rightarrow> error + SourceMessage" where
  \<open>SourceMessage_init = (\<lambda>num source_id status header data.
      let header = (case header of
                      None \<Rightarrow> SourceMessage_DEFAULT_HEADER
                    | Some h \<Rightarrow> if h = 0 then SourceMessage_DEFAULT_HEADER else h)
      in if header \<notin> set SourceMessage_HEADERS then
           raise_msg InvalidMessageException
             (format ''invalid message {} header {} of source {}''
                [str_int num, str_int header, source_id])
         else if status \<notin> fst ` set STATUS then
           raise_msg InvalidMessageException
             (format ''Unknown source {} status "{}"'' [source_id, str_int status])
         else Inr \<lparr>SourceMessage.header = header, num = num, source_id = source_id,
                    status = status, data = data\<rparr>)\<close>

text \<open>\<^verbatim>\<open>_encode_data\<close>: the loop over the sorted keys, then the method.\<close>

fun encode_chunks :: "(string, int) dict \<Rightarrow> string list \<Rightarrow> error + int list" where
  \<open>encode_chunks d [] = Inr []\<close>
| \<open>encode_chunks d (key # keys) =
     (case dict_get d key of
        Inl e \<Rightarrow> Inl e
      | Inr v \<Rightarrow>
          (case to_bytes v 4 of
             Inl e \<Rightarrow>
               (if e = OverflowError then
                  raise_msg EncodeMessageError (format ''value of "{}" key is too long'' [key])
                else Inl e)
           | Inr vb \<Rightarrow>
               (case encode_chunks d keys of
                  Inl e \<Rightarrow> Inl e
                | Inr rest \<Rightarrow>
                    Inr (map uint (trim_bytes (str_encode key) 8) @ map uint vb @ rest))))\<close>

definition SourceMessage_encode_data :: "SourceMessage \<Rightarrow> error + int list" where
  "SourceMessage_encode_data self =
     (case SourceMessage.data self of
        None \<Rightarrow> Inl AttributeError
      | Some d \<Rightarrow> encode_chunks d (sort (map fst d)))"

text \<open>\<^verbatim>\<open>if self.data\<close>: false for \<^verbatim>\<open>None\<close> and for the empty dict.\<close>

definition truthy :: "('k, 'v) dict option \<Rightarrow> bool" where
  "truthy d = (case d of None \<Rightarrow> False | Some [] \<Rightarrow> False | Some (kv # kvs) \<Rightarrow> True)"

text \<open>
  \<open>message_data\<close> is a list of ints until the final \<^verbatim>\<open>bytes(message_data)\<close>.
  The status is converted under a bare \<^verbatim>\<open>except\<close>.
\<close>

definition SourceMessage_get_raw :: "SourceMessage \<Rightarrow> error + bytes" where
  "SourceMessage_get_raw self =
     (case to_bytes (SourceMessage.num self) 2 of
        Inl e \<Rightarrow> (if e = OverflowError then Inl EncodeMessageError else Inl e)
      | Inr nb \<Rightarrow>
          (case to_bytes (SourceMessage.status self) 1 of
             Inl e \<Rightarrow> Inl EncodeMessageError
           | Inr sb \<Rightarrow>
               (let message_data =
                      [SourceMessage.header self] @ map uint nb
                      @ map uint (trim_bytes (str_encode (SourceMessage.source_id self)) 8)
                      @ map uint sb
                in if truthy (SourceMessage.data self) then
                     (case SourceMessage_encode_data self of
                        Inl e \<Rightarrow> Inl e
                      | Inr chunks \<Rightarrow>
                          bytes_of_ints
                            (message_data
                             @ [int (length (case SourceMessage.data self of Some d \<Rightarrow> d | None \<Rightarrow> []))]
                             @ chunks))
                   else bytes_of_ints (message_data @ [0x00]))))"

definition SourceMessage_encode :: "SourceMessage \<Rightarrow> error + bytes" where
  "SourceMessage_encode = encode SourceMessage_get_raw"

text \<open>\<^verbatim>\<open>_decode_data\<close>: the loop over the chunks, then the method.\<close>

fun decode_chunks :: "bytes list \<Rightarrow> (string, int) dict \<Rightarrow> error + (string, int) dict" where
  "decode_chunks [] result = Inr result"
| "decode_chunks (chunk # chunks) result =
     (case bytes_decode (take 8 chunk) of
        Inl e \<Rightarrow> Inl e
      | Inr field \<Rightarrow>
          decode_chunks chunks (dict_set result (strip_nul field) (from_bytes (drop 8 chunk))))"

definition SourceMessage_decode_data :: "bytes \<Rightarrow> nat \<Rightarrow> error + (string, int) dict" where
  "SourceMessage_decode_data bytes_data num_fields =
     (let chunk_size = 12
      in if length bytes_data \<noteq> num_fields * chunk_size then Inl DecodeMessageError
         else decode_chunks
                (map (\<lambda>i. take chunk_size (drop (i * chunk_size) bytes_data)) [0..<num_fields])
                [])"

text \<open>
  \<open>decode\<close>: \<^verbatim>\<open>bytes_data[0]\<close> and \<^verbatim>\<open>bytes_data[-1]\<close> raise IndexError on empty input,
  \<^verbatim>\<open>data_body[10]\<close> and \<^verbatim>\<open>data_body[11]\<close> on a short body; slices never raise.
\<close>

definition SourceMessage_decode :: "bytes \<Rightarrow> error + SourceMessage" where
  \<open>SourceMessage_decode bytes_data =
     (if bytes_data = [] then Inl IndexError
      else
        (let header' = uint (hd bytes_data);
             check = last bytes_data;
             data_body = butlast (tl bytes_data);
             num' = from_bytes (take 2 data_body)
         in (case bytes_decode (take 8 (drop 2 data_body)) of
               Inl e \<Rightarrow> Inl e
             | Inr s \<Rightarrow>
                 (let source_id' = strip_nul s
                  in (if length data_body \<le> 10 then Inl IndexError
                      else
                        (let status' = uint (data_body ! 10)
                         in (if length data_body \<le> 11 then Inl IndexError
                             else
                               (let num_fields = unat (data_body ! 11)
                                in (case (if num_fields > 0 then
                                            (case SourceMessage_decode_data (drop 12 data_body) num_fields of
                                               Inl e \<Rightarrow>
                                                 (if e = DecodeMessageError then
                                                    raise_msg InvalidMessageException
                                                      (format ''Invalid message {} body from source {}''
                                                         [str_int num', source_id'])
                                                  else Inl e)
                                             | Inr d \<Rightarrow> Inr (Some d))
                                          else Inr None) of
                                      Inl e \<Rightarrow> Inl e
                                    | Inr data' \<Rightarrow>
                                        (case SourceMessage_init num' source_id' status' (Some header') data' of
                                           Inl e \<Rightarrow> Inl e
                                         | Inr message \<Rightarrow>
                                             (case check_sum SourceMessage_get_raw message None of
                                                Inl e \<Rightarrow> Inl e
                                              | Inr c \<Rightarrow>
                                                  (if c \<noteq> check then
                                                     raise_msg InvalidMessageException
                                                       (format ''Invalid message {} from source {}''
                                                          [str_int num', source_id'])
                                                   else Inr message))))))))))))\<close>

subsection \<open>ServerMessage\<close>

record ServerMessage =
  header :: int
  num :: int

definition HEADER_SUCCESS :: int where "HEADER_SUCCESS = 0x11"
definition HEADER_ERROR :: int where "HEADER_ERROR = 0x12"

definition ServerMessage_DEFAULT_HEADER :: int where
  "ServerMessage_DEFAULT_HEADER = HEADER_SUCCESS"

definition ServerMessage_HEADERS :: "int list" where
  "ServerMessage_HEADERS = [HEADER_SUCCESS, HEADER_ERROR]"

definition ServerMessage_init :: "int \<Rightarrow> int option \<Rightarrow> error + ServerMessage" where
  \<open>ServerMessage_init = (\<lambda>num header.
      let header = (case header of
                      None \<Rightarrow> ServerMessage_DEFAULT_HEADER
                    | Some h \<Rightarrow> if h = 0 then ServerMessage_DEFAULT_HEADER else h)
      in if header \<notin> set ServerMessage_HEADERS then
           raise_msg InvalidMessageException (format ''invalid message {} header'' [str_int num])
         else if header = HEADER_ERROR \<and> num \<noteq> 0x0000 then
           raise_msg InvalidMessageException
             (format ''number message is not zero "{}" with header "{}"''
                [str_int num, str_int header])
         else Inr \<lparr>ServerMessage.header = header, num = num\<rparr>)\<close>

definition ServerMessage_get_raw :: "ServerMessage \<Rightarrow> error + bytes" where
  "ServerMessage_get_raw self =
     (case to_bytes (ServerMessage.num self) 2 of
        Inl e \<Rightarrow> (if e = OverflowError then Inl EncodeMessageError else Inl e)
      | Inr nb \<Rightarrow> bytes_of_ints ([ServerMessage.header self] @ map uint nb))"

definition ServerMessage_encode :: "ServerMessage \<Rightarrow> error + bytes" where
  "ServerMessage_encode = encode ServerMessage_get_raw"

text \<open>
  On a checksum mismatch the message of the exception is built from a template with two
  replacement fields and one argument.
\<close>

definition ServerMessage_decode :: "bytes \<Rightarrow> error + ServerMessage" where
  "ServerMessage_decode bytes_data =
     (if bytes_data = [] then Inl IndexError
      else
        let header' = uint (hd bytes_data);
            check = last bytes_data;
            data_body = butlast (tl bytes_data);
            num' = from_bytes (take 2 data_body)
        in case ServerMessage_init num' (Some header') of
             Inl e \<Rightarrow> Inl e
           | Inr message \<Rightarrow>
               (case check_sum ServerMessage_get_raw message None of
                  Inl e \<Rightarrow> Inl e
                | Inr c \<Rightarrow>
                    if c \<noteq> check then
                      raise_msg InvalidMessageException
                        (format ''Invalid message {} from source {}'' [str_int num'])
                    else Inr message))"

subsection \<open>Decoding from a stream\<close>

text \<open>
  The transport is tornado's \<^verbatim>\<open>IOStream\<close>. \<open>incoming\<close> holds the bytes that the peer sends
  before it closes, in order, however they are split into packets: \<^verbatim>\<open>read_bytes(n)\<close>
  resumes with the next \<open>n\<close> of them, and raises \<open>StreamClosedError\<close> when fewer are left.
  \<^verbatim>\<open>write\<close> (here \<open>IOStream_write\<close>) raises \<open>StreamClosedError\<close> on a closed stream and
  otherwise queues the data.
\<close>

record IOStream =
  incoming :: bytes
  closed :: bool
  written :: "bytes list"

definition read_bytes :: "IOStream \<Rightarrow> nat \<Rightarrow> (error + bytes) \<times> IOStream" where
  "read_bytes stream n =
     (if n \<le> length (incoming stream)
      then (Inr (take n (incoming stream)), stream\<lparr>incoming := drop n (incoming stream)\<rparr>)
      else (Inl StreamClosedError, stream))"

definition IOStream_write :: "IOStream \<Rightarrow> bytes \<Rightarrow> (error + unit) \<times> IOStream" where
  "IOStream_write stream bytes_data =
     (if closed stream then (Inl StreamClosedError, stream)
      else (Inr (), stream\<lparr>written := written stream @ [bytes_data]\<rparr>))"

definition SourceMessage_decode_stream ::
  "IOStream \<Rightarrow> int \<Rightarrow> (error + SourceMessage) \<times> IOStream" where
  "SourceMessage_decode_stream stream header' =
     (let chunk_size = 12
      in case to_bytes header' 1 of
           Inl e \<Rightarrow> (Inl e, stream)
         | Inr hb \<Rightarrow>
        (case read_bytes stream 2 of
           (Inl e, s1) \<Rightarrow> (Inl e, s1)
         | (Inr nb, s1) \<Rightarrow>
        (case read_bytes s1 8 of
           (Inl e, s2) \<Rightarrow> (Inl e, s2)
         | (Inr ib, s2) \<Rightarrow>
        (case read_bytes s2 1 of
           (Inl e, s3) \<Rightarrow> (Inl e, s3)
         | (Inr sb, s3) \<Rightarrow>
        (case read_bytes s3 1 of
           (Inl e, s4) \<Rightarrow> (Inl e, s4)
         | (Inr num_fields, s4) \<Rightarrow>
        (let byte_data = hb @ nb @ ib @ sb @ num_fields;
             n = nat (from_bytes num_fields)
         in case (if n > 0 then
                    (case read_bytes s4 (n * chunk_size) of
                       (Inl e, s5) \<Rightarrow> (Inl e, s5)
                     | (Inr d, s5) \<Rightarrow> (Inr (byte_data @ d), s5))
                  else (Inr byte_data, s4)) of
              (Inl e, s5) \<Rightarrow> (Inl e, s5)
            | (Inr byte_data, s5) \<Rightarrow>
           (case read_bytes s5 1 of
              (Inl e, s6) \<Rightarrow> (Inl e, s6)
            | (Inr cb, s6) \<Rightarrow> (SourceMessage_decode (byte_data @ cb), s6))))))))"

definition ServerMessage_decode_stream ::
  "IOStream \<Rightarrow> int \<Rightarrow> (error + ServerMessage) \<times> IOStream" where
  "ServerMessage_decode_stream stream header' =
     (case to_bytes header' 1 of
        Inl e \<Rightarrow> (Inl e, stream)
      | Inr hb \<Rightarrow>
     (case read_bytes stream 2 of
        (Inl e, s1) \<Rightarrow> (Inl e, s1)
      | (Inr nb, s1) \<Rightarrow>
     (case read_bytes s1 1 of
        (Inl e, s2) \<Rightarrow> (Inl e, s2)
      | (Inr cb, s2) \<Rightarrow> (ServerMessage_decode (hb @ nb @ cb), s2))))"

subsection \<open>The text of a SourceMessage\<close>

fun join :: "string \<Rightarrow> string list \<Rightarrow> string" where
  "join sep [] = []"
| "join sep [x] = x"
| "join sep (x # y # ys) = x @ sep @ join sep (y # ys)"

fun format_items :: "(string, int) dict \<Rightarrow> error + string list" where
  "format_items [] = Inr []"
| "format_items ((k, v) # kvs) =
     (case format ''{} | {}'' [k, str_int v] of
        Inl e \<Rightarrow> Inl e
      | Inr line \<Rightarrow> (case format_items kvs of Inl e \<Rightarrow> Inl e | Inr ls \<Rightarrow> Inr (line # ls)))"

definition SourceMessage_str :: "SourceMessage \<Rightarrow> error + string" where
  "SourceMessage_str self =
     (case format ''[{}] '' [SourceMessage.source_id self] of
        Inl e \<Rightarrow> Inl e
      | Inr result \<Rightarrow>
          (if truthy (SourceMessage.data self) then
             (case format_items (case SourceMessage.data self of Some d \<Rightarrow> d | None \<Rightarrow> []) of
                Inl e \<Rightarrow> Inl e
              | Inr ls \<Rightarrow> Inr (result @ join [CHR 0x0D, CHR 0x0A] ls @ [CHR 0x0A]))
           else Inr (result @ [CHR 0x0A])))"

section \<open>base/listener.py\<close>

record BaseListener =
  stream :: IOStream

definition send :: "BaseListener \<Rightarrow> bytes \<Rightarrow> (error + unit) \<times> BaseListener" where
  "send self bytes_data =
     (case IOStream_write (stream self) bytes_data of
        (Inl e, s) \<Rightarrow>
          ((if e = StreamClosedError then Inl ListenerClosedException else Inl e),
           self\<lparr>stream := s\<rparr>)
      | (Inr u, s) \<Rightarrow> (Inr u, self\<lparr>stream := s\<rparr>))"

section \<open>base/source.py\<close>

record Source =
  source_id :: string
  messages :: "SourceMessage list"
  status :: int

definition Source_STATUS :: "(int, string) dict" where
  "Source_STATUS = [(0x01, ''IDLE''), (0x02, ''ACTIVE''), (0x03, ''RECHARGE'')]"

definition Source_DEFAULT_STATUS :: int where
  "Source_DEFAULT_STATUS = 0x01"

definition SOURCE_NAME_LENGTH :: nat where
  "SOURCE_NAME_LENGTH = 8"

text \<open>\<^verbatim>\<open>len(s)\<close> counts code points: the bytes that are not UTF-8 continuation bytes.\<close>

definition str_len :: "string \<Rightarrow> nat" where
  "str_len s = length (filter (\<lambda>b. \<not> cont b) (str_encode s))"

text \<open>The setter of the property \<open>status\<close>.\<close>

definition Source_set_status :: "Source \<Rightarrow> int \<Rightarrow> error + Source" where
  \<open>Source_set_status self value =
     (if Source_STATUS \<noteq> [] \<and> value \<notin> fst ` set Source_STATUS then
        raise_msg SourceException
          (format ''status "{}" not allowed on "{}" source'' [str_int value, Source.source_id self])
      else Inr (self\<lparr>Source.status := value\<rparr>))\<close>

text \<open>
  \<open>BaseSource.__init__\<close>, then \<open>Source.__init__\<close>. \<^verbatim>\<open>not status\<close> holds for \<^verbatim>\<open>None\<close> and
  for \<open>0\<close>. Before the first assignment the attribute \<open>_status\<close> is the class's \<^verbatim>\<open>None\<close>;
  the field holds \<open>0\<close> there, and no code reads it.
\<close>

definition BaseSource_init :: "string \<Rightarrow> int option \<Rightarrow> error + Source" where
  "BaseSource_init = (\<lambda>source_id status.
     let self = \<lparr>Source.source_id = source_id, messages = [], status = 0\<rparr>;
         status = (case status of
                     None \<Rightarrow> Source_DEFAULT_STATUS
                   | Some v \<Rightarrow> if v = 0 then Source_DEFAULT_STATUS else v)
     in Source_set_status self status)"

definition Source_init :: "string \<Rightarrow> int option \<Rightarrow> error + Source" where
  "Source_init = (\<lambda>source_id status.
     if str_len source_id > SOURCE_NAME_LENGTH then
       raise_msg SourceException
         (format ''length of source_id more than {}'' [str_int (int SOURCE_NAME_LENGTH)])
     else BaseSource_init source_id status)"

definition get_message :: "Source \<Rightarrow> SourceMessage \<Rightarrow> error + Source" where
  "get_message self message =
     (case Source_set_status self (SourceMessage.status message) of
        Inl e \<Rightarrow> Inl e
      | Inr self' \<Rightarrow> Inr (self'\<lparr>messages := messages self' @ [message]\<rparr>))"

section \<open>app/app_server.py\<close>

text \<open>
  \<open>broadcast_message\<close> iterates over \<^verbatim>\<open>self.listeners.items()\<close> and pops from the same
  dict inside the loop. A dict iterator records the size of the dict when it is created
  and compares it with the current size at every step, also at the step that would end
  the loop; when they differ it raises \<open>RuntimeError\<close>. \<open>broadcast_loop\<close> is that loop:
  \<open>used\<close> is the recorded size, the key list is what the iterator has still to visit.
  The registry is the state, returned beside the outcome.
\<close>

fun broadcast_loop ::
  "nat \<Rightarrow> 'a list \<Rightarrow> SourceMessage \<Rightarrow> ('a, BaseListener) dict
   \<Rightarrow> (error + unit) \<times> ('a, BaseListener) dict" where
  "broadcast_loop used [] message listeners =
     (if length listeners \<noteq> used then (Inl RuntimeError, listeners) else (Inr (), listeners))"
| "broadcast_loop used (listener_id # rest) message listeners =
     (if length listeners \<noteq> used then (Inl RuntimeError, listeners)
      else
        (case dict_get listeners listener_id of
           Inl e \<Rightarrow> (Inl e, listeners)
         | Inr listener \<Rightarrow>
             (case SourceMessage_str message of
                Inl e \<Rightarrow> (Inl e, listeners)
              | Inr text \<Rightarrow>
                  (case send listener (str_encode text) of
                     (Inr u, listener') \<Rightarrow>
                       broadcast_loop used rest message (dict_set listeners listener_id listener')
                   | (Inl e, listener') \<Rightarrow>
                       (if e = ListenerClosedException then
                          (case dict_pop (dict_set listeners listener_id listener') listener_id of
                             Inl e' \<Rightarrow> (Inl e', dict_set listeners listener_id listener')
                           | Inr listeners' \<Rightarrow> broadcast_loop used rest message listeners')
                        else (Inl e, dict_set listeners listener_id listener'))))))"

definition broadcast_message ::
  "('a, BaseListener) dict \<Rightarrow> SourceMessage \<Rightarrow> (error + unit) \<times> ('a, BaseListener) dict" where
  "broadcast_message listeners message =
     (if listeners \<noteq> [] then
        broadcast_loop (length listeners) (map fst listeners) message listeners
      else (Inr (), listeners))"

section \<open>Values used in the statements\<close>

text \<open>Sequencing of two fallible steps: \<open>decode(m.encode())\<close> is \<open>sum_bind (encode m) decode\<close>.\<close>

definition sum_bind :: "error + 'a \<Rightarrow> ('a \<Rightarrow> error + 'b) \<Rightarrow> error + 'b" where
  "sum_bind r f = (case r of Inl e \<Rightarrow> Inl e | Inr x \<Rightarrow> f x)"

text \<open>The messages and frames of \<^verbatim>\<open>base/tests/test_messages.py\<close>.\<close>

definition msg_abc :: SourceMessage where
  "msg_abc = \<lparr>SourceMessage.header = 0x01, num = 1, source_id = ''abc'', status = 0x01,
              data = None\<rparr>"

definition frame_abc :: bytes where
  "frame_abc = [0x01, 0x00, 0x01, 0x00, 0x00, 0x00, 0x00, 0x00, 0x61, 0x62, 0x63, 0x01, 0x00, 0x61]"

definition msg_abc_fields :: SourceMessage where
  "msg_abc_fields = \<lparr>SourceMessage.header = 0x01, num = 1, source_id = ''abc'', status = 0x01,
                     data = Some [(''abc'', 0x010203), (''def'', 0x030201)]\<rparr>"

definition frame_abc_fields :: bytes where
  "frame_abc_fields =
     [0x01, 0x00, 0x01, 0x00, 0x00, 0x00, 0x00, 0x00, 0x61, 0x62, 0x63, 0x01, 0x02,
      0x00, 0x00, 0x00, 0x00, 0x00, 0x61, 0x62, 0x63, 0x00, 0x01, 0x02, 0x03,
      0x00, 0x00, 0x00, 0x00, 0x00, 0x64, 0x65, 0x66, 0x00, 0x03, 0x02, 0x01,
      0x64]"

text \<open>A message with 256 fields named \<open>"0"\<close> to \<open>"255"\<close>, each of value 0.\<close>

definition msg_256_fields :: SourceMessage where
  "msg_256_fields = \<lparr>SourceMessage.header = 0x01, num = 1, source_id = ''abc'', status = 0x01,
                     data = Some (map (\<lambda>i. (str_nat i, 0)) [0..<256])\<rparr>"

text \<open>A listener on an open connection and one whose connection is already closed.\<close>

definition listener_open :: BaseListener where
  "listener_open = \<lparr>stream = \<lparr>incoming = [], closed = False, written = []\<rparr>\<rparr>"

definition listener_closed :: BaseListener where
  "listener_closed = \<lparr>stream = \<lparr>incoming = [], closed = True, written = []\<rparr>\<rparr>"

definition stream_of :: "bytes \<Rightarrow> IOStream" where
  "stream_of bs = \<lparr>incoming = bs, closed = False, written = []\<rparr>"

text \<open>
  The bytes-to-characters map of \<^verbatim>\<open>bytes.decode()\<close>, and the XOR of all bytes of a sequence
  (the value of \<open>xor_checksum\<close> on a non-empty sequence).
\<close>

definition chars_of :: "bytes \<Rightarrow> string" where
  "chars_of bs = map (\<lambda>b. char_of (unat b)) bs"

definition xr :: "bytes \<Rightarrow> byte" where
  "xr bs = foldl (XOR) 0 bs"

text \<open>
  The wire form of one field and of a field map: for each name in ascending order, the
  name in 8 bytes and the value in 4.
\<close>

definition chunk_of :: "string \<Rightarrow> int \<Rightarrow> bytes" where
  "chunk_of k v = trim_bytes (str_encode k) 8 @ be_bytes 4 v"

definition wire_fields :: "(string, int) dict \<Rightarrow> bytes" where
  "wire_fields d = concat (map (\<lambda>(k, v). chunk_of k v) (sort_key fst d))"

text \<open>
  Valid messages. \<open>wire_text\<close> is a text of at most 8 bytes; \<open>valid_text\<close> asks in addition
  that it holds no NUL character. A field value is valid when it fits 4 bytes. A
  StatusMessage is valid when its header is \<open>0x01\<close>, its number fits 2 bytes, its status is
  one of the three defined ones, its identifier and field names are valid texts, and it
  has at most 255 fields (the keys of a dict are distinct). An AckMessage is valid when
  its number fits 2 bytes and its header is SUCCESS, or ERROR with number 0.
\<close>

definition wire_text :: "string \<Rightarrow> bool" where
  "wire_text s \<longleftrightarrow> utf8_valid (str_encode s) \<and> length s \<le> 8"

definition valid_text :: "string \<Rightarrow> bool" where
  "valid_text s \<longleftrightarrow> utf8_valid (str_encode s) \<and> length s \<le> 8 \<and> CHR 0x00 \<notin> set s"

definition in_u32 :: "int \<Rightarrow> bool" where
  "in_u32 v \<longleftrightarrow> 0 \<le> v \<and> v < 4294967296"

definition valid_field :: "string \<times> int \<Rightarrow> bool" where
  "valid_field kv \<longleftrightarrow> valid_text (fst kv) \<and> in_u32 (snd kv)"

definition valid_SourceMessage :: "SourceMessage \<Rightarrow> bool" where
  "valid_SourceMessage m \<longleftrightarrow>
     SourceMessage.header m = 0x01
     \<and> 0 \<le> SourceMessage.num m \<and> SourceMessage.num m < 65536
     \<and> valid_text (SourceMessage.source_id m)
     \<and> SourceMessage.status m \<in> fst ` set STATUS
     \<and> (case SourceMessage.data m of
          None \<Rightarrow> True
        | Some d \<Rightarrow> distinct (map fst d) \<and> length d \<le> 255 \<and> list_all valid_field d)"

definition valid_ServerMessage :: "ServerMessage \<Rightarrow> bool" where
  "valid_ServerMessage a \<longleftrightarrow>
     0 \<le> ServerMessage.num a \<and> ServerMessage.num a < 65536
     \<and> (ServerMessage.header a = HEADER_SUCCESS
        \<or> ServerMessage.header a = HEADER_ERROR \<and> ServerMessage.num a = 0)"

text \<open>
  What a field map is after a round trip: absent when it was absent or empty, otherwise
  sorted by name. \<open>fields\<close> reads a field map as the mapping it denotes.
\<close>

definition wire_data :: "(string, int) dict option \<Rightarrow> (string, int) dict option" where
  "wire_data d = (case d of None \<Rightarrow> None | Some [] \<Rightarrow> None | Some (kv # kvs) \<Rightarrow> Some (sort_key fst (kv # kvs)))"

definition fields :: "(string, int) dict option \<Rightarrow> string \<Rightarrow> int option" where
  "fields d = (case d of None \<Rightarrow> Map.empty | Some kvs \<Rightarrow> map_of kvs)"

text \<open>
  A message whose identifier holds a NUL character, the message of the tests with its
  fields inserted in the other order, and a SUCCESS acknowledgement.
\<close>

definition msg_nul :: SourceMessage where
  "msg_nul = \<lparr>SourceMessage.header = 0x01, num = 1, source_id = [CHR ''a'', CHR 0x00, CHR ''b''],
              status = 0x01, data = None\<rparr>"

definition msg_def_abc :: SourceMessage where
  "msg_def_abc = \<lparr>SourceMessage.header = 0x01, num = 1, source_id = ''abc'', status = 0x01,
                  data = Some [(''def'', 0x030201), (''abc'', 0x010203)]\<rparr>"

definition ack_1 :: ServerMessage where
  "ack_1 = \<lparr>ServerMessage.header = 0x11, num = 1\<rparr>"

section \<open>Basic facts about the Python values\<close>

lemma raise_msg_simps [simp]:
  "raise_msg e (Inr s) = Inl e"
  "raise_msg e (Inl e') = Inl e'"
  by (simp_all add: raise_msg_def)

lemma to_bytes_1: "0 \<le> v \<Longrightarrow> v < 256 \<Longrightarrow> to_bytes v 1 = Inr [word_of_int v]"
  by (simp add: to_bytes_def)

lemma to_bytes_Suc0: "0 \<le> v \<Longrightarrow> v < 256 \<Longrightarrow> to_bytes v (Suc 0) = Inr [word_of_int v]"
  by (simp add: to_bytes_def)

lemma to_bytes_2:
  "0 \<le> v \<Longrightarrow> v < 65536 \<Longrightarrow> to_bytes v 2 = Inr [word_of_int (v div 256), word_of_int v]"
  by (simp add: to_bytes_def numeral_2_eq_2)

lemma to_bytes_4:
  "0 \<le> v \<Longrightarrow> v < 4294967296 \<Longrightarrow>
   to_bytes v 4 = Inr [word_of_int (v div 256 div 256 div 256), word_of_int (v div 256 div 256),
                       word_of_int (v div 256), word_of_int v]"
  by (simp add: to_bytes_def eval_nat_numeral)

lemma from_bytes_1: "from_bytes [b] = uint b"
  by (simp add: from_bytes_def)

section \<open>The shape of what \<open>decode\<close> computes\<close>

text \<open>
  On a frame of a header byte, twelve bytes up to the field count, the field bytes and a
  last byte, \<open>SourceMessage_decode\<close> is the following chain; no index is out of range.
\<close>

lemma SourceMessage_decode_frame:
  assumes "length body = 12"
  shows "SourceMessage_decode (h # body @ tail @ [c]) =
    (case bytes_decode (take 8 (drop 2 body)) of
       Inl e \<Rightarrow> Inl e
     | Inr s \<Rightarrow>
        (case (if 0 < unat (body ! 11) then
                 (case SourceMessage_decode_data tail (unat (body ! 11)) of
                    Inl e \<Rightarrow> if e = DecodeMessageError then Inl InvalidMessageException else Inl e
                  | Inr d \<Rightarrow> Inr (Some d))
               else Inr None) of
           Inl e \<Rightarrow> Inl e
         | Inr d \<Rightarrow>
            (case SourceMessage_init (from_bytes (take 2 body)) (strip_nul s) (uint (body ! 10))
                    (Some (uint h)) d of
               Inl e \<Rightarrow> Inl e
             | Inr message \<Rightarrow>
                (case check_sum SourceMessage_get_raw message None of
                   Inl e \<Rightarrow> Inl e
                 | Inr c' \<Rightarrow> if c' \<noteq> c then Inl InvalidMessageException else Inr message))))"
proof -
  have b1: "butlast (tl ((h # body @ tail @ [c]))) = body @ tail"
    by (simp add: butlast_append)
  show ?thesis
    unfolding SourceMessage_decode_def b1
    using assms
    by (simp add: nth_append Let_def cong: sum.case_cong if_cong)
qed

lemma decode_frame_abc: "SourceMessage_decode frame_abc = Inr msg_abc"
  by code_simp

lemma decode_frame_abc_fields: "SourceMessage_decode frame_abc_fields = Inr msg_abc_fields"
  by code_simp

lemma decode_ack_success:
  "ServerMessage_decode [0x11, 0x00, 0x01, 0x10] = Inr \<lparr>ServerMessage.header = 0x11, num = 1\<rparr>"
  by code_simp

section \<open>Reading a frame from a stream\<close>

lemma drop_11: "length body = 12 \<Longrightarrow> drop 11 body = [body ! 11]"
proof -
  assume a: "length body = 12"
  then have "drop 11 body = body ! 11 # drop (Suc 11) body"
    using Cons_nth_drop_Suc [of 11 body] by simp
  with a show ?thesis by simp
qed

lemma split_body:
  assumes "length body = 12"
  shows "take 2 body @ take 8 (drop 2 body) @ take (Suc 0) (drop 10 body) @ [body ! 11] = body"
proof -
  have a: "take (Suc 0) (drop 10 body) @ [body ! 11] = drop 10 body"
    using append_take_drop_id [of "Suc 0" "drop 10 body"] drop_11 [OF assms] by simp
  have b: "take 8 (drop 2 body) @ drop 10 body = drop 2 body"
    using append_take_drop_id [of 8 "drop 2 body"] by simp
  show ?thesis
    using a b append_take_drop_id [of 2 body] by simp
qed

lemma read_bytes_append:
  "length xs = n \<Longrightarrow>
   read_bytes \<lparr>incoming = xs @ ys, closed = cl, written = w\<rparr> n
     = (Inr xs, \<lparr>incoming = ys, closed = cl, written = w\<rparr>)"
  by (simp add: read_bytes_def)

lemma read_bytes_Cons:
  "read_bytes \<lparr>incoming = x # ys, closed = cl, written = w\<rparr> (Suc 0)
     = (Inr [x], \<lparr>incoming = ys, closed = cl, written = w\<rparr>)"
  by (simp add: read_bytes_def)

lemma SourceMessage_decode_stream_frame:
  assumes "0 \<le> h" and "h < 256" and "length body = 12"
      and "length chunks = unat (body ! 11) * 12"
  shows "SourceMessage_decode_stream
           \<lparr>incoming = body @ chunks @ c # rest, closed = cl, written = w\<rparr> h
         = (SourceMessage_decode (word_of_int h # body @ chunks @ [c]),
            \<lparr>incoming = rest, closed = cl, written = w\<rparr>)"
proof -
  define b2 where "b2 = take 2 body"
  define b8 where "b8 = take 8 (drop 2 body)"
  define st where "st = body ! 10"
  define nf where "nf = body ! 11"
  have st: "take (Suc 0) (drop 10 body) = [st]"
    using assms(3) by (simp add: st_def take_Suc_conv_app_nth hd_drop_conv_nth take_Suc)
  have body: "body = b2 @ b8 @ st # nf # []"
    using split_body [OF assms(3)] st by (simp add: b2_def b8_def nf_def)
  have l2: "length b2 = 2" and l8: "length b8 = 8"
    using assms(3) by (simp_all add: b2_def b8_def)
  have nf: "body ! 11 = nf" by (simp add: nf_def)
  have len: "length chunks = unat nf * 12" using assms(4) nf by simp
  show ?thesis
  proof (cases "unat nf = 0")
    case True
    with len have "chunks = []" by simp
    then show ?thesis
      unfolding SourceMessage_decode_stream_def
      using assms(1,2) l2 l8 True
      by (simp add: body to_bytes_Suc0 read_bytes_append read_bytes_Cons from_bytes_1 Let_def)
  next
    case False
    then show ?thesis
      unfolding SourceMessage_decode_stream_def
      using assms(1,2) l2 l8 len
      by (simp add: body to_bytes_Suc0 read_bytes_append read_bytes_Cons from_bytes_1 Let_def)
  qed
qed

lemma ServerMessage_decode_stream_frame:
  assumes "0 \<le> h" and "h < 256" and "length nb = 2"
  shows "ServerMessage_decode_stream \<lparr>incoming = nb @ c # rest, closed = cl, written = w\<rparr> h
         = (ServerMessage_decode (word_of_int h # nb @ [c]),
            \<lparr>incoming = rest, closed = cl, written = w\<rparr>)"
  unfolding ServerMessage_decode_stream_def
  using assms by (simp add: to_bytes_Suc0 read_bytes_append read_bytes_Cons)

section \<open>Checksums, texts and integers on the wire\<close>

lemma foldl_xor: "foldl (XOR) (a :: byte) bs = a XOR foldl (XOR) 0 bs"
proof (induction bs arbitrary: a)
  case Nil
  show ?case by simp
next
  case (Cons b bs)
  have "foldl (XOR) a (b # bs) = (a XOR b) XOR foldl (XOR) 0 bs"
    using Cons.IH [of "a XOR b"] by simp
  also have "\<dots> = a XOR (b XOR foldl (XOR) 0 bs)" by (simp add: xor.assoc)
  also have "b XOR foldl (XOR) 0 bs = foldl (XOR) 0 (b # bs)"
    using Cons.IH [of b] by simp
  finally show ?case .
qed

lemma xr_Nil [simp]: "xr [] = 0"
  by (simp add: xr_def)

lemma xr_Cons [simp]: "xr (b # bs) = b XOR xr bs"
  using foldl_xor [of b bs] by (simp add: xr_def)

lemma xr_append [simp]: "xr (as @ bs) = xr as XOR xr bs"
  by (induction as) (simp_all add: xor.assoc)

lemma xr_replicate_0 [simp]: "xr (replicate n 0) = 0"
  by (induction n) simp_all

lemma xr_filter_nonzero [simp]: "xr (filter (\<lambda>b. b \<noteq> 0) bs) = xr bs"
  by (induction bs) simp_all

lemma xor_checksum_xr: "bs \<noteq> [] \<Longrightarrow> xor_checksum bs = Inr (xr bs)"
proof (cases bs)
  case Nil
  assume "bs \<noteq> []"
  with Nil show ?thesis by simp
next
  case (Cons b bs')
  have "foldl (XOR) b bs' = xr (b # bs')"
    using foldl_xor [of b bs'] by (simp add: xr_def)
  with Cons show ?thesis by (simp add: xor_checksum_def)
qed

lemma unat_byte_less: "unat (b :: byte) < 256"
proof -
  have "uint b < 256" using uint_lt2p [of b] by simp
  then have "int (unat b) < 256" by (simp only: uint_nat)
  then show ?thesis by linarith
qed

lemma uint_byte_less: "uint (b :: byte) < 256"
  using uint_lt2p [of b] by simp

lemma byte_of_char_of_byte:
  "(of_nat (of_char (char_of (unat (b::byte)) :: char)) :: byte) = b"
proof -
  have 1: "(of_char (char_of (unat b) :: char) :: nat) = unat b mod 256"
    by (rule of_char_of)
  have 2: "unat b mod 256 = unat b"
    using unat_byte_less [of b] by (rule mod_less)
  have 3: "(of_nat (unat b) :: byte) = b"
    by (simp only: of_nat_unat ucast_id)
  show ?thesis by (simp only: 1 2 3)
qed

lemma char_of_byte_of_char:
  "char_of (unat (of_nat (of_char c) :: byte)) = c"
proof -
  have 1: "unat (of_nat (of_char c) :: byte) = of_char c mod 2 ^ LENGTH(8)"
    by (rule unat_of_nat)
  have 2: "(2::nat) ^ LENGTH(8) = 256" by simp
  have 3: "(char_of ((of_char c :: nat) mod 256) :: char) = char_of (of_char c :: nat)"
    by (rule char_of_mod_256)
  show ?thesis by (simp only: 1 2 3 char_of_char)
qed

lemma str_encode_chars_of [simp]: "str_encode (chars_of bs) = bs"
  unfolding str_encode_def chars_of_def map_map comp_def byte_of_char_of_byte
  by (rule map_ident [THEN fun_cong])

lemma chars_of_str_encode [simp]: "chars_of (str_encode s) = s"
  unfolding str_encode_def chars_of_def map_map comp_def char_of_byte_of_char
  by (rule map_ident [THEN fun_cong])

lemma length_str_encode [simp]: "length (str_encode s) = length s"
  by (simp add: str_encode_def)

lemma length_chars_of [simp]: "length (chars_of s) = length s"
  by (simp add: chars_of_def)

lemma byte_of_char_eq_0: "(of_nat (of_char c) :: byte) = 0 \<longleftrightarrow> c = CHR 0x00"
proof
  assume a: "(of_nat (of_char c) :: byte) = 0"
  have "c = char_of (unat (of_nat (of_char c) :: byte))"
    by (simp only: char_of_byte_of_char)
  also have "\<dots> = char_of (unat (0 :: byte))" by (simp only: a)
  also have "\<dots> = CHR 0x00" by (simp add: char_of_def)
  finally show "c = CHR 0x00" .
next
  assume "c = CHR 0x00"
  then show "(of_nat (of_char c) :: byte) = 0" by simp
qed

lemma str_encode_strip_nul: "str_encode (strip_nul s) = filter (\<lambda>b. b \<noteq> 0) (str_encode s)"
  by (induction s) (simp_all add: str_encode_def strip_nul_def byte_of_char_eq_0 del: of_nat_eq_0_iff)

lemma utf8_valid_zeros [simp]: "utf8_valid (replicate k 0 @ bs) = utf8_valid bs"
  by (induction k) simp_all

lemma bytes_decode_eq: "bytes_decode bs = (if utf8_valid bs then Inr (chars_of bs) else Inl UnicodeDecodeError)"
  by (simp add: bytes_decode_def chars_of_def)

lemma length_trim_bytes [simp]: "length (trim_bytes bs n) = n"
  by (simp add: trim_bytes_def Let_def)

lemma trim_bytes_short: "length bs \<le> n \<Longrightarrow> trim_bytes bs n = replicate (n - length bs) 0 @ bs"
  by (simp add: trim_bytes_def Let_def)


lemma xr_trim_bytes: "length bs \<le> n \<Longrightarrow> xr (trim_bytes bs n) = xr bs"
  by (simp add: trim_bytes_short)

lemma uint_range: "list_all (\<lambda>x. 0 \<le> x \<and> x < 256) (map uint (bs :: bytes))"
proof -
  have "uint b < 256" for b :: byte
    using uint_lt2p [of b] by simp
  then show ?thesis by (simp add: list_all_iff)
qed

lemma bytes_of_ints_uint: "bytes_of_ints (map uint bs) = Inr bs"
  using uint_range [of bs] by (simp add: bytes_of_ints_def comp_def)

lemma bytes_of_ints_eq: "xs = map uint bs \<Longrightarrow> bytes_of_ints xs = Inr bs"
  by (simp add: bytes_of_ints_uint)

lemma from_bytes_2: "from_bytes [a, b] = uint a * 256 + uint b"
  by (simp add: from_bytes_def)

lemma from_bytes_4: "from_bytes [a, b, c, d] = ((uint a * 256 + uint b) * 256 + uint c) * 256 + uint d"
  by (simp add: from_bytes_def)

lemma be_bytes_2: "be_bytes 2 v = [word_of_int (v div 256), word_of_int v]"
  by (simp add: numeral_2_eq_2)

lemma be_bytes_4: "be_bytes 4 v = [word_of_int (v div 256 div 256 div 256), word_of_int (v div 256 div 256), word_of_int (v div 256), word_of_int v]"
  by (simp add: eval_nat_numeral)

lemma length_be_bytes [simp]: "length (be_bytes n v) = n"
  by (induction n arbitrary: v) simp_all

lemma uint_byte_mod: "uint (word_of_int v :: byte) = v mod 256" for v :: int
  by (simp add: uint_word_of_int)

lemma from_bytes_snoc: "from_bytes (bs @ [b]) = from_bytes bs * 256 + uint b"
  by (simp add: from_bytes_def)

lemma from_bytes_Nil [simp]: "from_bytes [] = 0"
  by (simp add: from_bytes_def)

lemma from_bytes_be_bytes: "from_bytes (be_bytes n v) = v mod 256 ^ n" for v :: int
proof (induction n arbitrary: v)
  case 0
  show ?case by simp
next
  case (Suc n)
  have "from_bytes (be_bytes (Suc n) v) = (v div 256 mod 256 ^ n) * 256 + v mod 256"
    by (simp add: from_bytes_snoc Suc.IH uint_byte_mod)
  also have "\<dots> = v mod (256 * 256 ^ n)"
    using zmod_zmult2_eq [where a = v and b = 256 and c = "256 ^ n"] by (simp add: mult.commute)
  finally show ?case by simp
qed

lemma from_bytes_range: "0 \<le> from_bytes bs \<and> from_bytes bs < 256 ^ length bs"
proof (induction bs rule: rev_induct)
  case Nil
  show ?case by simp
next
  case (snoc b bs)
  have b: "0 \<le> uint b" "uint b < 256" using uint_byte_less [of b] by simp_all
  from snoc have "from_bytes bs + 1 \<le> 256 ^ length bs" by simp
  then have "(from_bytes bs + 1) * 256 \<le> 256 ^ length bs * 256" by simp
  with snoc b show ?case by (simp add: from_bytes_snoc algebra_simps)
qed

lemma byte_256: "(a :: byte) * 256 = 0"
proof -
  have "(256::byte) = 0" by simp
  then show ?thesis by (simp only: mult_zero_right)
qed

lemma word_of_int_shift: "(word_of_int (k * 256 + uint b) :: byte) = b"
  by (simp add: byte_256)

lemma be_bytes_from_bytes: "be_bytes (length bs) (from_bytes bs) = bs"
proof (induction bs rule: rev_induct)
  case Nil
  show ?case by simp
next
  case (snoc b bs)
  have "(from_bytes bs * 256 + uint b) div 256 = from_bytes bs"
    using uint_byte_less [of b] by simp
  with snoc show ?case
    by (simp add: from_bytes_snoc word_of_int_shift del: of_int_add of_int_mult)
qed

lemma from_bytes_be_bytes_2: "0 \<le> v \<Longrightarrow> v < 65536 \<Longrightarrow> from_bytes (be_bytes 2 v) = v"
  by (simp add: from_bytes_be_bytes)

lemma from_bytes_be_bytes_4: "0 \<le> v \<Longrightarrow> v < 4294967296 \<Longrightarrow> from_bytes (be_bytes 4 v) = v"
  by (simp add: from_bytes_be_bytes)

section \<open>Encoding\<close>

lemma to_bytes_ok: "0 \<le> v \<Longrightarrow> v < 256 ^ n \<Longrightarrow> to_bytes v n = Inr (be_bytes n v)"
  by (simp add: to_bytes_def)

lemma to_bytes_overflow: "v < 0 \<or> 256 ^ n \<le> v \<Longrightarrow> to_bytes v n = Inl OverflowError"
  by (auto simp add: to_bytes_def)

lemma dict_get_in: "distinct (map fst d) \<Longrightarrow> (k, v) \<in> set d \<Longrightarrow> dict_get d k = Inr v"
  by (simp add: dict_get_def)

lemma encode_chunks_ok:
  assumes "distinct (map fst d)" and "list_all (\<lambda>(k, v). in_u32 v) d" and "set kvs \<subseteq> set d"
  shows "encode_chunks d (map fst kvs) = Inr (map uint (concat (map (\<lambda>(k, v). chunk_of k v) kvs)))"
  using assms(3)
proof (induction kvs)
  case Nil
  show ?case by simp
next
  case (Cons kv kvs)
  obtain k v where kv: "kv = (k, v)" by (cases kv)
  with Cons.prems have mem: "(k, v) \<in> set d" by simp
  with assms(2) have "in_u32 v" by (auto simp add: list_all_iff)
  then have tb: "to_bytes v 4 = Inr (be_bytes 4 v)"
    by (simp add: in_u32_def to_bytes_ok)
  have dg: "dict_get d k = Inr v" using assms(1) mem by (rule dict_get_in)
  from Cons have ih: "encode_chunks d (map fst kvs) = Inr (map uint (concat (map (\<lambda>(k, v). chunk_of k v) kvs)))"
    by simp
  show ?case by (simp add: kv dg tb ih chunk_of_def)
qed

lemma map_fst_insort_key: "map fst (insort_key fst x xs) = insort (fst x) (map fst xs)"
  by (induction xs) simp_all

lemma map_fst_sort_key: "map fst (sort_key fst xs) = sort (map fst xs)"
  by (induction xs) (simp_all add: map_fst_insort_key)

lemma get_raw_encodable:
  assumes "0 \<le> SourceMessage.header m" and "SourceMessage.header m < 256"
      and "0 \<le> SourceMessage.num m" and "SourceMessage.num m < 65536"
      and "0 \<le> SourceMessage.status m" and "SourceMessage.status m < 256"
      and "case SourceMessage.data m of None \<Rightarrow> True
           | Some d \<Rightarrow> distinct (map fst d) \<and> length d \<le> 255 \<and> list_all (\<lambda>(k, v). in_u32 v) d"
  shows "SourceMessage_get_raw m =
     Inr (word_of_int (SourceMessage.header m) # be_bytes 2 (SourceMessage.num m)
          @ trim_bytes (str_encode (SourceMessage.source_id m)) 8
          @ [word_of_int (SourceMessage.status m)]
          @ (case SourceMessage.data m of
               None \<Rightarrow> [0]
             | Some d \<Rightarrow> of_nat (length d) # wire_fields d))"
proof -
  have nb: "to_bytes (SourceMessage.num m) 2 = Inr (be_bytes 2 (SourceMessage.num m))"
    using assms(3,4) by (simp add: to_bytes_ok)
  have sb: "to_bytes (SourceMessage.status m) (Suc 0) = Inr [word_of_int (SourceMessage.status m)]"
    using assms(5,6) by (rule to_bytes_Suc0)
  have hd: "SourceMessage.header m = uint (word_of_int (SourceMessage.header m) :: byte)"
    using assms(1,2) by (simp add: uint_byte_mod)
  show ?thesis
  proof (cases "SourceMessage.data m")
    case None
    have "[SourceMessage.header m] @ map uint (be_bytes 2 (SourceMessage.num m))
          @ map uint (trim_bytes (str_encode (SourceMessage.source_id m)) 8)
          @ map uint [word_of_int (SourceMessage.status m) :: byte] @ [0]
        = map uint (word_of_int (SourceMessage.header m) # be_bytes 2 (SourceMessage.num m)
          @ trim_bytes (str_encode (SourceMessage.source_id m)) 8
          @ [word_of_int (SourceMessage.status m)] @ [0])"
      using hd by simp
    then show ?thesis
      by (simp add: SourceMessage_get_raw_def nb sb None truthy_def bytes_of_ints_eq)
  next
    case (Some d)
    with assms(7) have d: "distinct (map fst d)" "length d \<le> 255" "list_all (\<lambda>(k, v). in_u32 v) d"
      by simp_all
    show ?thesis
    proof (cases d)
      case Nil
      have "[SourceMessage.header m] @ map uint (be_bytes 2 (SourceMessage.num m))
          @ map uint (trim_bytes (str_encode (SourceMessage.source_id m)) 8)
          @ map uint [word_of_int (SourceMessage.status m) :: byte] @ [0]
        = map uint (word_of_int (SourceMessage.header m) # be_bytes 2 (SourceMessage.num m)
          @ trim_bytes (str_encode (SourceMessage.source_id m)) 8
          @ [word_of_int (SourceMessage.status m)] @ [0])"
        using hd by simp
      then show ?thesis
        by (simp add: SourceMessage_get_raw_def nb sb Some Nil truthy_def bytes_of_ints_eq wire_fields_def)
    next
      case (Cons kv kvs)
      have ec: "encode_chunks d (sort (map fst d)) = Inr (map uint (wire_fields d))"
        using encode_chunks_ok [OF d(1) d(3), of "sort_key fst d"]
        by (simp add: map_fst_sort_key wire_fields_def)
      have len: "int (length d) = uint (of_nat (length d) :: byte)"
        using d(2) by (simp add: uint_nat unat_of_nat)
      have "[SourceMessage.header m] @ map uint (be_bytes 2 (SourceMessage.num m))
          @ map uint (trim_bytes (str_encode (SourceMessage.source_id m)) 8)
          @ map uint [word_of_int (SourceMessage.status m) :: byte] @ [int (length d)] @ map uint (wire_fields d)
        = map uint (word_of_int (SourceMessage.header m) # be_bytes 2 (SourceMessage.num m)
          @ trim_bytes (str_encode (SourceMessage.source_id m)) 8
          @ [word_of_int (SourceMessage.status m)] @ of_nat (length d) # wire_fields d)"
        using hd len by simp
      then have "bytes_of_ints ([SourceMessage.header m] @ map uint (be_bytes 2 (SourceMessage.num m))
          @ map uint (trim_bytes (str_encode (SourceMessage.source_id m)) 8)
          @ map uint [word_of_int (SourceMessage.status m) :: byte] @ [int (length d)] @ map uint (wire_fields d))
        = Inr (word_of_int (SourceMessage.header m) # be_bytes 2 (SourceMessage.num m)
          @ trim_bytes (str_encode (SourceMessage.source_id m)) 8
          @ [word_of_int (SourceMessage.status m)] @ of_nat (length d) # wire_fields d)"
        by (rule bytes_of_ints_eq)
      moreover have tr: "truthy (SourceMessage.data m)"
        using Some Cons by (simp add: truthy_def)
      moreover have ln: "(case SourceMessage.data m of Some d \<Rightarrow> d | None \<Rightarrow> []) = d"
        using Some by simp
      moreover have "SourceMessage_encode_data m = Inr (map uint (wire_fields d))"
        using Some ec by (simp add: SourceMessage_encode_data_def)
      ultimately show ?thesis
        by (simp add: SourceMessage_get_raw_def nb sb Some)
    qed
  qed
qed

section \<open>Decoding what was encoded\<close>

lemma dict_set_append: "k \<notin> fst ` set acc \<Longrightarrow> dict_set acc k v = acc @ [(k, v)]"
  by (induction acc) auto

lemma length_chunk_of [simp]: "length (chunk_of k v) = 12"
  by (simp add: chunk_of_def)

lemma take_8_chunk_of [simp]: "take 8 (chunk_of k v) = trim_bytes (str_encode k) 8"
  by (simp add: chunk_of_def)

lemma drop_8_chunk_of [simp]: "drop 8 (chunk_of k v) = be_bytes 4 v"
  by (simp add: chunk_of_def)

lemma chars_of_append [simp]: "chars_of (as @ bs) = chars_of as @ chars_of bs"
  by (simp add: chars_of_def)

lemma chars_of_zeros [simp]: "chars_of (replicate n 0) = replicate n (CHR 0x00)"
  by (simp add: chars_of_def char_of_def)

lemma strip_nul_pad: "CHR 0x00 \<notin> set s \<Longrightarrow> strip_nul (replicate n (CHR 0x00) @ s) = s"
  by (induction n) (auto simp add: strip_nul_def filter_id_conv)

lemma decode_text_slot:
  assumes "valid_text s"
  shows "bytes_decode (trim_bytes (str_encode s) 8) = Inr (replicate (8 - length s) (CHR 0x00) @ s)"
  using assms by (simp add: valid_text_def bytes_decode_eq trim_bytes_short)

lemma decode_chunks_wire:
  assumes "list_all valid_field kvs" and "distinct (map fst (acc @ kvs))"
  shows "decode_chunks (map (\<lambda>(k, v). chunk_of k v) kvs) acc = Inr (acc @ kvs)"
  using assms
proof (induction kvs arbitrary: acc)
  case Nil
  show ?case by simp
next
  case (Cons kv kvs)
  obtain k v where kv: "kv = (k, v)" by (cases kv)
  from Cons.prems(1) kv have "valid_field (k, v)" and rest: "list_all valid_field kvs"
    by simp_all
  then have vt: "valid_text k" and vv: "in_u32 v"
    by (simp_all add: valid_field_def)
  from Cons.prems(2) kv have fresh: "k \<notin> fst ` set acc" and dist: "distinct (map fst ((acc @ [(k, v)]) @ kvs))"
    by auto
  have nul: "CHR 0x00 \<notin> set k" using vt by (simp add: valid_text_def)
  have val: "from_bytes (be_bytes 4 v) = v"
    using vv by (simp add: in_u32_def from_bytes_be_bytes_4)
  have "decode_chunks (map (\<lambda>(k, v). chunk_of k v) (kv # kvs)) acc
        = decode_chunks (map (\<lambda>(k, v). chunk_of k v) kvs) (acc @ [(k, v)])"
    by (simp add: kv decode_text_slot [OF vt] strip_nul_pad [OF nul] val dict_set_append [OF fresh])
  also have "\<dots> = Inr ((acc @ [(k, v)]) @ kvs)"
    using rest dist by (rule Cons.IH)
  finally show ?case by (simp add: kv)
qed

lemma split_chunks:
  assumes "list_all (\<lambda>c. length c = 12) cs"
  shows "map (\<lambda>i. take 12 (drop (i * 12) (concat cs))) [0..<length cs] = cs"
  using assms
proof (induction cs)
  case Nil
  show ?case by simp
next
  case (Cons c cs)
  then have len: "length c = 12" and rest: "list_all (\<lambda>c. length c = 12) cs" by simp_all
  have "[0..<length (c # cs)] = 0 # map Suc [0..<length cs]"
    by (simp add: upt_conv_Cons map_Suc_upt del: upt_Suc)
  then have "map (\<lambda>i. take 12 (drop (i * 12) (concat (c # cs)))) [0..<length (c # cs)]
      = take 12 (c @ concat cs) # map (\<lambda>i. take 12 (drop (Suc i * 12) (c @ concat cs))) [0..<length cs]"
    by (simp add: comp_def del: upt_Suc)
  also have "take 12 (c @ concat cs) = c" using len by simp
  also have "map (\<lambda>i. take 12 (drop (Suc i * 12) (c @ concat cs))) [0..<length cs]
      = map (\<lambda>i. take 12 (drop (i * 12) (concat cs))) [0..<length cs]"
    using len by simp
  also have "\<dots> = cs" using rest by (rule Cons.IH)
  finally show ?case .
qed

lemma length_concat_chunks:
  "list_all (\<lambda>c. length c = 12) cs \<Longrightarrow> length (concat cs) = length cs * 12"
  by (induction cs) simp_all

lemma decode_data_chunks:
  assumes "list_all (\<lambda>c. length c = 12) cs"
  shows "SourceMessage_decode_data (concat cs) (length cs) = decode_chunks cs []"
  using split_chunks [OF assms] length_concat_chunks [OF assms]
  by (simp add: SourceMessage_decode_data_def Let_def)

lemma length_wire_fields: "length (wire_fields d) = length d * 12"
proof -
  have "list_all (\<lambda>c. length c = 12) (map (\<lambda>(k, v). chunk_of k v) (sort_key fst d))"
    by (simp add: list_all_iff split_def)
  from length_concat_chunks [OF this] show ?thesis by (simp add: wire_fields_def)
qed

lemma decode_data_wire:
  assumes "list_all valid_field d" and "distinct (map fst d)"
  shows "SourceMessage_decode_data (wire_fields d) (length d) = Inr (sort_key fst d)"
proof -
  let ?cs = "map (\<lambda>(k, v). chunk_of k v) (sort_key fst d)"
  have all12: "list_all (\<lambda>c. length c = 12) ?cs"
    by (simp add: list_all_iff split_def)
  have valid: "list_all valid_field (sort_key fst d)"
    using assms(1) by (simp add: list_all_iff)
  have dist: "distinct (map fst ([] @ sort_key fst d))"
    using assms(2) by (simp add: map_fst_sort_key)
  have "SourceMessage_decode_data (concat ?cs) (length ?cs) = decode_chunks ?cs []"
    using all12 by (rule decode_data_chunks)
  also have "\<dots> = Inr ([] @ sort_key fst d)"
    using valid dist by (rule decode_chunks_wire)
  finally show ?thesis by (simp add: wire_fields_def)
qed

section \<open>Round trips\<close>

lemma status_range: "s \<in> fst ` set STATUS \<Longrightarrow> 0 \<le> s \<and> s < 256"
  by (auto simp add: STATUS_def STATUS_IDLE_def STATUS_ACTIVE_def STATUS_RECHARGE_def)

lemma valid_field_in_u32: "list_all valid_field d \<Longrightarrow> list_all (\<lambda>(k, v). in_u32 v) d"
  by (simp add: list_all_iff valid_field_def split_def)

lemma encode_Inr:
  assumes "get_raw m = Inr raw" and "raw \<noteq> []"
  shows "encode get_raw m = Inr (raw @ [xr raw])"
proof -
  from assms(2) obtain b bs where raw: "raw = b # bs" by (cases raw) auto
  have "xor_checksum (b # bs) = Inr (xr (b # bs))" by (rule xor_checksum_xr) simp
  then show ?thesis
    using assms(1) by (simp add: encode_def check_sum_def raw)
qed

lemma check_sum_None:
  assumes "get_raw m = Inr raw" and "raw \<noteq> []"
  shows "check_sum get_raw m None = Inr (xr raw)"
  using assms by (simp add: check_sum_def xor_checksum_xr)

lemma wire_fields_sorted: "wire_fields (sort_key fst d) = wire_fields d"
proof -
  have "sort_key fst (sort_key fst d) = sort_key fst d"
    by (rule sort_key_id_if_sorted) (rule sorted_sort_key)
  then show ?thesis by (simp add: wire_fields_def)
qed

lemma wire_fields_Nil [simp]: "wire_fields [] = []"
  by (simp add: wire_fields_def)

lemma SourceMessage_init_ok:
  assumes "st \<in> fst ` set STATUS"
  shows "SourceMessage_init n sid st (Some 1) d
         = Inr \<lparr>SourceMessage.header = 1, num = n, source_id = sid, status = st, data = d\<rparr>"
  using assms by (simp add: SourceMessage_init_def SourceMessage_HEADERS_def SourceMessage_DEFAULT_HEADER_def)

lemma get_raw_valid:
  assumes "valid_SourceMessage m"
  defines "d \<equiv> (case SourceMessage.data m of None \<Rightarrow> [] | Some kvs \<Rightarrow> kvs)"
  shows "SourceMessage_get_raw m =
     Inr (1 # (be_bytes 2 (SourceMessage.num m)
               @ trim_bytes (str_encode (SourceMessage.source_id m)) 8
               @ [word_of_int (SourceMessage.status m), of_nat (length d)])
          @ wire_fields d)"
proof -
  from assms(1) have h: "SourceMessage.header m = 1"
    and n: "0 \<le> SourceMessage.num m" "SourceMessage.num m < 65536"
    and st: "SourceMessage.status m \<in> fst ` set STATUS"
    and dt: "case SourceMessage.data m of None \<Rightarrow> True
             | Some d \<Rightarrow> distinct (map fst d) \<and> length d \<le> 255 \<and> list_all valid_field d"
    by (simp_all add: valid_SourceMessage_def)
  have dt': "case SourceMessage.data m of None \<Rightarrow> True
             | Some d \<Rightarrow> distinct (map fst d) \<and> length d \<le> 255 \<and> list_all (\<lambda>(k, v). in_u32 v) d"
    using dt by (auto split: option.splits dest: valid_field_in_u32)
  have "SourceMessage_get_raw m =
     Inr (word_of_int (SourceMessage.header m) # be_bytes 2 (SourceMessage.num m)
          @ trim_bytes (str_encode (SourceMessage.source_id m)) 8
          @ [word_of_int (SourceMessage.status m)]
          @ (case SourceMessage.data m of
               None \<Rightarrow> [0]
             | Some d \<Rightarrow> of_nat (length d) # wire_fields d))"
    using status_range [OF st] n h dt' by (intro get_raw_encodable) simp_all
  then show ?thesis
    by (simp add: h d_def split: option.splits)
qed

lemma decode_valid_frame:
  assumes n: "0 \<le> n" "n < 65536" and sid: "valid_text sid" and st: "st \<in> fst ` set STATUS"
      and d: "distinct (map fst d)" "length d \<le> 255" "list_all valid_field d"
  defines "m' \<equiv> \<lparr>SourceMessage.header = 1, num = n, source_id = sid, status = st,
                   data = (if d = [] then None else Some (sort_key fst d))\<rparr>"
  defines "raw \<equiv> 1 # (be_bytes 2 n @ trim_bytes (str_encode sid) 8 @ [word_of_int st, of_nat (length d)])
                 @ wire_fields d"
  shows "SourceMessage_decode (raw @ [xr raw]) = Inr m'"
proof -
  let ?body = "be_bytes 2 n @ trim_bytes (str_encode sid) 8 @ [word_of_int st, of_nat (length d) :: byte]"
  have len: "length ?body = 12" by simp
  have slot: "take 8 (drop 2 ?body) = trim_bytes (str_encode sid) 8" by simp
  have b10: "?body ! 10 = word_of_int st" by (simp add: nth_append)
  have b11: "?body ! 11 = of_nat (length d)" by (simp add: nth_append)
  have num: "from_bytes (take 2 ?body) = n" using n by (simp add: from_bytes_be_bytes_2)
  have nul: "CHR 0x00 \<notin> set sid" using sid by (simp add: valid_text_def)
  have stv: "uint (word_of_int st :: byte) = st"
    using status_range [OF st] by (simp add: uint_byte_mod)
  have nf: "unat (of_nat (length d) :: byte) = length d"
    using d(2) by (simp add: unat_of_nat)
  have valid': "valid_SourceMessage m'"
    using n sid st d by (simp add: valid_SourceMessage_def m'_def map_fst_sort_key list_all_iff)
  have raw': "SourceMessage_get_raw m' = Inr raw"
    using get_raw_valid [OF valid']
    by (simp add: m'_def raw_def wire_fields_sorted)
  have cs: "check_sum SourceMessage_get_raw m' None = Inr (xr raw)"
    using raw' by (rule check_sum_None) (simp add: raw_def)
  have u1: "uint (1 :: byte) = 1" by simp
  have "SourceMessage_decode (1 # ?body @ wire_fields d @ [xr raw]) = Inr m'"
  proof (cases "d = []")
    case True
    have init: "SourceMessage_init n sid st (Some 1) None = Inr m'"
      unfolding m'_def using st True by (simp add: SourceMessage_init_ok)
    show ?thesis
      unfolding SourceMessage_decode_frame [OF len] slot b10 b11 num stv nf u1
      using True by (simp add: decode_text_slot [OF sid] strip_nul_pad [OF nul] init cs)
  next
    case False
    have init: "SourceMessage_init n sid st (Some 1) (Some (sort_key fst d)) = Inr m'"
      unfolding m'_def using st False by (simp add: SourceMessage_init_ok)
    show ?thesis
      unfolding SourceMessage_decode_frame [OF len] slot b10 b11 num stv nf u1
      using False
      by (simp add: decode_text_slot [OF sid] strip_nul_pad [OF nul]
          decode_data_wire [OF d(3) d(1)] init cs)
  qed
  then show ?thesis by (simp add: raw_def)
qed

lemma roundtrip_SourceMessage:
  assumes "valid_SourceMessage m"
  shows "sum_bind (SourceMessage_encode m) SourceMessage_decode
         = Inr (m\<lparr>data := wire_data (SourceMessage.data m)\<rparr>)"
proof -
  define d where "d = (case SourceMessage.data m of None \<Rightarrow> [] | Some kvs \<Rightarrow> kvs)"
  define raw where "raw = 1 # (be_bytes 2 (SourceMessage.num m)
               @ trim_bytes (str_encode (SourceMessage.source_id m)) 8
               @ [word_of_int (SourceMessage.status m), of_nat (length d)])
          @ wire_fields d"
  have raw: "SourceMessage_get_raw m = Inr raw"
    using get_raw_valid [OF assms] by (simp add: raw_def d_def)
  have enc: "SourceMessage_encode m = Inr (raw @ [xr raw])"
    unfolding SourceMessage_encode_def using raw by (rule encode_Inr) (simp add: raw_def)
  from assms have h: "SourceMessage.header m = 1"
    and n: "0 \<le> SourceMessage.num m" "SourceMessage.num m < 65536"
    and sid: "valid_text (SourceMessage.source_id m)"
    and st: "SourceMessage.status m \<in> fst ` set STATUS"
    and dt: "distinct (map fst d)" "length d \<le> 255" "list_all valid_field d"
    by (simp_all add: valid_SourceMessage_def d_def split: option.splits)
  have wd: "(if d = [] then None else Some (sort_key fst d)) = wire_data (SourceMessage.data m)"
    by (simp add: wire_data_def d_def split: option.splits list.splits)
  have "SourceMessage_decode (raw @ [xr raw])
        = Inr \<lparr>SourceMessage.header = 1, num = SourceMessage.num m,
                source_id = SourceMessage.source_id m, status = SourceMessage.status m,
                data = (if d = [] then None else Some (sort_key fst d))\<rparr>"
    unfolding raw_def using n sid st dt by (rule decode_valid_frame)
  then show ?thesis
    using h by (simp add: enc sum_bind_def wd)
qed

lemma fields_wire_data:
  assumes "case d of None \<Rightarrow> True | Some kvs \<Rightarrow> distinct (map fst kvs)"
  shows "fields (wire_data d) = fields d"
proof (cases d)
  case None
  then show ?thesis by (simp add: wire_data_def fields_def)
next
  case (Some kvs)
  show ?thesis
  proof (cases kvs)
    case Nil
    with Some show ?thesis by (simp add: wire_data_def fields_def)
  next
    case (Cons kv kvs')
    from assms Some have dist: "distinct (map fst kvs)" by simp
    have "map_of (sort_key fst kvs) = map_of kvs"
      using dist by (intro map_of_inject_set [THEN iffD2]) (simp_all add: map_fst_sort_key)
    with Some Cons show ?thesis by (simp add: wire_data_def fields_def)
  qed
qed

lemma roundtrip_ServerMessage:
  assumes "valid_ServerMessage a"
  shows "sum_bind (ServerMessage_encode a) ServerMessage_decode = Inr a"
proof -
  let ?h = "ServerMessage.header a" and ?n = "ServerMessage.num a"
  from assms have n: "0 \<le> ?n" "?n < 65536"
    and hd: "?h = HEADER_SUCCESS \<or> ?h = HEADER_ERROR \<and> ?n = 0"
    by (simp_all add: valid_ServerMessage_def)
  from hd have hr: "0 \<le> ?h" "?h < 256" "?h \<noteq> 0"
    by (auto simp add: HEADER_SUCCESS_def HEADER_ERROR_def)
  define raw where "raw = word_of_int ?h # be_bytes 2 ?n"
  have hu: "uint (word_of_int ?h :: byte) = ?h" using hr by (simp add: uint_byte_mod)
  have raw_of: "ServerMessage_get_raw b = Inr raw"
    if "ServerMessage.header b = ?h" "ServerMessage.num b = ?n" for b
  proof -
    have "[?h] @ map uint (be_bytes 2 ?n) = map uint raw" using hu by (simp add: raw_def)
    then have "bytes_of_ints ([?h] @ map uint (be_bytes 2 ?n)) = Inr raw" by (rule bytes_of_ints_eq)
    then show ?thesis
      using n that by (simp add: ServerMessage_get_raw_def to_bytes_ok)
  qed
  have enc: "ServerMessage_encode a = Inr (raw @ [xr raw])"
    unfolding ServerMessage_encode_def by (rule encode_Inr) (simp_all add: raw_of raw_def)
  have init: "ServerMessage_init ?n (Some ?h) = Inr a"
    using hd by (auto simp add: ServerMessage_init_def ServerMessage_HEADERS_def
        HEADER_SUCCESS_def HEADER_ERROR_def)
  have cs: "check_sum ServerMessage_get_raw a None = Inr (xr raw)"
    by (rule check_sum_None) (simp_all add: raw_of raw_def)
  have bl: "butlast (tl (raw @ [xr raw])) = be_bytes 2 ?n"
    by (simp add: raw_def butlast_append)
  have "ServerMessage_decode (raw @ [xr raw]) = Inr a"
    unfolding ServerMessage_decode_def bl
    using n by (simp add: raw_def hu from_bytes_be_bytes_2 init cs del: be_bytes.simps)
  then show ?thesis by (simp add: enc sum_bind_def)
qed

section \<open>Overflows in \<open>encode\<close>\<close>

lemma encode_chunks_total:
  assumes "list_all (\<lambda>(k, v). in_u32 v) d" and "set keys \<subseteq> fst ` set d"
  shows "\<exists>cs. encode_chunks d keys = Inr cs"
  using assms(2)
proof (induction keys)
  case Nil
  show ?case by simp
next
  case (Cons k keys)
  then have "k \<in> fst ` set d" by simp
  then obtain v where v: "map_of d k = Some v"
    by (metis domD dom_map_of_conv_image_fst)
  then have "(k, v) \<in> set d" by (rule map_of_SomeD)
  with assms(1) have "in_u32 v" by (auto simp add: list_all_iff)
  then have tb: "to_bytes v 4 = Inr (be_bytes 4 v)"
    by (simp add: in_u32_def to_bytes_ok)
  from Cons obtain cs where "encode_chunks d keys = Inr cs" by auto
  then show ?case by (simp add: dict_get_def v tb)
qed

lemma encode_too_many_fields:
  assumes "0 \<le> SourceMessage.num m" and "SourceMessage.num m < 65536"
      and "0 \<le> SourceMessage.status m" and "SourceMessage.status m < 256"
      and "SourceMessage.data m = Some d"
      and "255 < length d" and "list_all (\<lambda>(k, v). in_u32 v) d"
  shows "SourceMessage_encode m = Inl ValueError"
proof -
  have nb: "to_bytes (SourceMessage.num m) 2 = Inr (be_bytes 2 (SourceMessage.num m))"
    using assms(1,2) by (simp add: to_bytes_ok)
  have sb: "to_bytes (SourceMessage.status m) (Suc 0) = Inr [word_of_int (SourceMessage.status m)]"
    using assms(3,4) by (rule to_bytes_Suc0)
  from assms(6) obtain kv kvs where d: "d = kv # kvs" by (cases d) auto
  obtain cs where ec: "encode_chunks d (sort (map fst d)) = Inr cs"
    using encode_chunks_total [OF assms(7), of "sort (map fst d)"] by auto
  have "\<not> list_all (\<lambda>x. 0 \<le> x \<and> x < 256) (xs @ [int (length d)] @ ys)" for xs ys
    using assms(6) by simp
  then have "bytes_of_ints (xs @ [int (length d)] @ ys) = Inl ValueError" for xs ys
    by (simp only: bytes_of_ints_def if_False)
  moreover have tr: "truthy (SourceMessage.data m)"
    using assms(5) d by (simp add: truthy_def)
  moreover have ln: "(case SourceMessage.data m of Some d \<Rightarrow> d | None \<Rightarrow> []) = d"
    using assms(5) by simp
  moreover have "SourceMessage_encode_data m = Inr cs"
    using assms(5) ec by (simp add: SourceMessage_encode_data_def)
  ultimately have "SourceMessage_get_raw m = Inl ValueError"
    by (simp add: SourceMessage_get_raw_def nb sb del: append.simps append_Cons append_Nil)
  then show ?thesis by (simp add: SourceMessage_encode_def encode_def)
qed

lemma encode_chunks_overflow:
  assumes "distinct (map fst d)" and "set kvs \<subseteq> set d" and "\<exists>(k, v) \<in> set kvs. \<not> in_u32 v"
  shows "encode_chunks d (map fst kvs) = Inl EncodeMessageError"
  using assms(2,3)
proof (induction kvs)
  case Nil
  then show ?case by simp
next
  case (Cons kv kvs)
  obtain k v where kv: "kv = (k, v)" by (cases kv)
  with Cons.prems have mem: "(k, v) \<in> set d" by simp
  have dg: "dict_get d k = Inr v" using assms(1) mem by (rule dict_get_in)
  show ?case
  proof (cases "in_u32 v")
    case False
    then have "to_bytes v 4 = Inl OverflowError"
      by (intro to_bytes_overflow) (auto simp add: in_u32_def)
    then show ?thesis by (simp add: kv dg)
  next
    case True
    then have tb: "to_bytes v 4 = Inr (be_bytes 4 v)"
      by (simp add: in_u32_def to_bytes_ok)
    from True Cons.prems kv have "\<exists>(k, v) \<in> set kvs. \<not> in_u32 v" by auto
    with Cons have "encode_chunks d (map fst kvs) = Inl EncodeMessageError" by simp
    then show ?thesis by (simp add: kv dg tb)
  qed
qed

lemma encode_overflow_num:
  assumes "65535 < SourceMessage.num m"
  shows "SourceMessage_encode m = Inl EncodeMessageError"
proof -
  have "to_bytes (SourceMessage.num m) 2 = Inl OverflowError"
    using assms by (intro to_bytes_overflow) simp
  then show ?thesis
    by (simp add: SourceMessage_encode_def encode_def SourceMessage_get_raw_def)
qed

lemma encode_overflow_status:
  assumes "255 < SourceMessage.status m"
  shows "SourceMessage_encode m = Inl EncodeMessageError"
proof -
  have "to_bytes (SourceMessage.status m) (Suc 0) = Inl OverflowError"
    using assms by (intro to_bytes_overflow) simp
  then show ?thesis
    by (cases "to_bytes (SourceMessage.num m) 2")
      (auto simp add: SourceMessage_encode_def encode_def SourceMessage_get_raw_def to_bytes_def
        split: if_splits)
qed

lemma encode_overflow_value:
  assumes "0 \<le> SourceMessage.num m" and "SourceMessage.num m < 65536"
      and "0 \<le> SourceMessage.status m" and "SourceMessage.status m < 256"
      and "SourceMessage.data m = Some d" and "distinct (map fst d)"
      and "(k, v) \<in> set d" and "4294967295 < v"
  shows "SourceMessage_encode m = Inl EncodeMessageError"
proof -
  have nb: "to_bytes (SourceMessage.num m) 2 = Inr (be_bytes 2 (SourceMessage.num m))"
    using assms(1,2) by (simp add: to_bytes_ok)
  have sb: "to_bytes (SourceMessage.status m) (Suc 0) = Inr [word_of_int (SourceMessage.status m)]"
    using assms(3,4) by (rule to_bytes_Suc0)
  have "\<exists>(k, v) \<in> set (sort_key fst d). \<not> in_u32 v"
    using assms(7,8) by (intro bexI [of _ "(k, v)"]) (simp_all add: in_u32_def)
  then have "encode_chunks d (map fst (sort_key fst d)) = Inl EncodeMessageError"
    using assms(6) by (intro encode_chunks_overflow) simp_all
  then have "SourceMessage_encode_data m = Inl EncodeMessageError"
    using assms(5) by (simp add: SourceMessage_encode_data_def map_fst_sort_key)
  moreover have "truthy (SourceMessage.data m)"
    using assms(5,7) by (cases d) (simp_all add: truthy_def)
  ultimately have "SourceMessage_get_raw m = Inl EncodeMessageError"
    by (simp add: SourceMessage_get_raw_def nb sb)
  then show ?thesis by (simp add: SourceMessage_encode_def encode_def)
qed

section \<open>The examples are valid\<close>

lemma valid_msg_def_abc: "valid_SourceMessage msg_def_abc"
  by code_simp

lemma valid_ack_1: "valid_ServerMessage ack_1"
  by code_simp



section \<open>The claims\<close>

text \<open>
  C3. Encoding \<open>StatusMessage(seq=1, id="abc", status=IDLE, fields=None)\<close> gives exactly the
  14 bytes \<open>01 00 01 00 00 00 00 00 61 62 63 01 00 61\<close>, and encoding the same message with
  the fields \<open>{"abc": 0x010203, "def": 0x030201}\<close> gives a frame whose last byte, the
  checksum, is \<open>0x64\<close> (the whole frame is the one of the tests).
\<close>

theorem encode_test_vectors:
  "SourceMessage_init 1 ''abc'' STATUS_IDLE None None = Inr msg_abc
   \<and> SourceMessage_encode msg_abc
       = Inr [0x01, 0x00, 0x01, 0x00, 0x00, 0x00, 0x00, 0x00, 0x61, 0x62, 0x63, 0x01, 0x00, 0x61]
   \<and> SourceMessage_init 1 ''abc'' STATUS_IDLE None (Some [(''abc'', 0x010203), (''def'', 0x030201)])
       = Inr msg_abc_fields
   \<and> SourceMessage_encode msg_abc_fields = Inr frame_abc_fields
   \<and> last frame_abc_fields = 0x64"
  by code_simp

text \<open>
  C10. When the field-count byte of a frame is 0, \<open>SourceMessage_decode\<close> ignores every byte
  between the field-count byte and the last byte: a frame with extra bytes there decodes
  as the frame without them. (The checksum that is compared is the checksum of the
  re-encoded message, so this holds for any extra bytes, in particular for those that
  XOR to zero: the statement's witness inserts two equal bytes into the frame of the
  tests.)
\<close>

theorem decode_ignores_extra_bytes:
  assumes "length pre = 13" and "pre ! 12 = 0"
  shows "SourceMessage_decode (pre @ extra @ [c]) = SourceMessage_decode (pre @ [c])"
proof -
  from assms(1) obtain h body where pre: "pre = h # body" and len: "length body = 12"
    by (cases pre) auto
  from assms(2) pre have nf: "body ! 11 = 0" by simp
  show ?thesis
    using SourceMessage_decode_frame [OF len, of h extra c]
      SourceMessage_decode_frame [OF len, of h "[]" c]
    by (simp add: pre nf)
qed

theorem decode_ignores_extra_bytes_witness:
  "SourceMessage_decode
     ([0x01, 0x00, 0x01, 0x00, 0x00, 0x00, 0x00, 0x00, 0x61, 0x62, 0x63, 0x01, 0x00]
      @ [0x07, 0x07] @ [0x61]) = Inr msg_abc"
proof -
  have "SourceMessage_decode
          ([0x01, 0x00, 0x01, 0x00, 0x00, 0x00, 0x00, 0x00, 0x61, 0x62, 0x63, 0x01, 0x00]
           @ [0x07, 0x07] @ [0x61])
        = SourceMessage_decode
          ([0x01, 0x00, 0x01, 0x00, 0x00, 0x00, 0x00, 0x00, 0x61, 0x62, 0x63, 0x01, 0x00] @ [0x61])"
    by (rule decode_ignores_extra_bytes) simp_all
  then show ?thesis
    using decode_frame_abc by (simp add: frame_abc_def)
qed

text \<open>
  C8. \<open>decode_stream\<close> is \<open>decode\<close> on the bytes it assembles. The header \<open>h\<close> has been read
  by the caller. From a stream that holds the rest of a frame (twelve bytes up to the
  field count, \<open>12\<close> bytes for each counted field, one checksum byte) followed by anything,
  \<open>SourceMessage_decode_stream\<close> returns what \<open>SourceMessage_decode\<close> returns on the whole
  frame (the same message, or the same error) and leaves exactly what follows the frame
  in the stream. \<open>ServerMessage_decode_stream\<close> does the same with the two bytes of the
  number and the checksum byte.
\<close>

theorem decode_stream_is_decode:
  assumes "0 \<le> h" and "h < 256"
      and "length body = 12" and "length chunks = unat (body ! 11) * 12"
      and "0 \<le> h'" and "h' < 256" and "length nb = 2"
  shows "SourceMessage_decode_stream
           \<lparr>incoming = body @ chunks @ c # rest, closed = cl, written = w\<rparr> h
         = (SourceMessage_decode (word_of_int h # body @ chunks @ [c]),
            \<lparr>incoming = rest, closed = cl, written = w\<rparr>)
       \<and> ServerMessage_decode_stream
           \<lparr>incoming = nb @ c' # rest', closed = cl', written = w'\<rparr> h'
         = (ServerMessage_decode (word_of_int h' # nb @ [c']),
            \<lparr>incoming = rest', closed = cl', written = w'\<rparr>)"
  using SourceMessage_decode_stream_frame [OF assms(1-4)]
    ServerMessage_decode_stream_frame [OF assms(5-7)]
  by simp

theorem decode_stream_is_decode_witness:
  "SourceMessage_decode_stream (stream_of (tl frame_abc_fields @ [0x01, 0x02])) 0x01
     = (Inr msg_abc_fields, stream_of [0x01, 0x02])
   \<and> ServerMessage_decode_stream (stream_of [0x00, 0x01, 0x10, 0x12]) 0x11
     = (Inr \<lparr>ServerMessage.header = 0x11, num = 1\<rparr>, stream_of [0x12])"
  using decode_stream_is_decode [of "0x01"
      "[0x00, 0x01, 0x00, 0x00, 0x00, 0x00, 0x00, 0x61, 0x62, 0x63, 0x01, 0x02]"
      "[0x00, 0x00, 0x00, 0x00, 0x00, 0x61, 0x62, 0x63, 0x00, 0x01, 0x02, 0x03,
        0x00, 0x00, 0x00, 0x00, 0x00, 0x64, 0x65, 0x66, 0x00, 0x03, 0x02, 0x01]"
      "0x11" "[0x00, 0x01]" "0x64" "[0x01, 0x02]" False "[]" "0x10" "[0x12]" False "[]"]
    decode_frame_abc_fields decode_ack_success
  by (simp add: stream_of_def frame_abc_fields_def)

text \<open>
  C1. Three listeners are registered and the connection of the second is already closed.
  \<open>broadcast_message\<close> writes to the first, removes the second, and then the iteration
  over the registry raises \<open>RuntimeError\<close>, because the registry changed size during the
  iteration: the third listener receives nothing and the error reaches the caller.
\<close>

theorem broadcast_with_closed_listener:
  "broadcast_message
     [(1::nat, listener_open), (2, listener_closed), (3, listener_open)] msg_abc
   = (Inl RuntimeError,
      [(1, \<lparr>stream = \<lparr>incoming = [], closed = False,
                        written = [str_encode ''[abc] '' @ [0x0A]]\<rparr>\<rparr>),
       (3, listener_open)])"
  by code_simp

text \<open>
  C6. The acknowledgement \<open>11 00 01 00\<close> has an allowed header and a last byte that is not
  the checksum \<open>0x10\<close> of the bytes before it. \<open>ServerMessage_decode\<close> fails on it with
  \<open>IndexError\<close>, raised while the message of the \<open>InvalidMessageException\<close> is formatted.
\<close>

theorem ack_checksum_mismatch:
  "ServerMessage_decode [0x11, 0x00, 0x01, 0x00] = Inl IndexError"
  by code_simp

text \<open>
  C9. \<open>Source('abc', 0)\<close> is accepted: the status \<open>0\<close> is taken for a missing status and
  replaced by the default \<open>IDLE\<close>.
\<close>

theorem source_with_status_zero:
  "Source_init ''abc'' (Some 0)
   = Inr \<lparr>Source.source_id = ''abc'', messages = [], status = 0x01\<rparr>"
  by code_simp

text \<open>
  C5. A StatusMessage with 256 fields, every number in range, does not fail with
  \<open>EncodeMessageError\<close>: the count 256 is appended to the list of ints and the final
  \<^verbatim>\<open>bytes(message_data)\<close> raises \<open>ValueError\<close>. The other three overflows of the claim do
  raise \<open>EncodeMessageError\<close> (lemmas \<open>encode_overflow_num\<close>, \<open>encode_overflow_status\<close>,
  \<open>encode_overflow_value\<close>).
\<close>

theorem encode_256_fields: "SourceMessage_encode msg_256_fields = Inl ValueError"
  by (rule encode_too_many_fields [where d = "map (\<lambda>i. (str_nat i, 0)) [0..<256]"])
    (simp_all add: msg_256_fields_def list_all_iff in_u32_def)

text \<open>
  C2, as amended. For every valid StatusMessage whose identifier and field names hold no
  NUL character, and every valid AckMessage, decoding the encoding succeeds and gives
  back the header, the sequence number, the identifier and the status; the field map
  comes back as the same mapping, sorted by name, and an empty field map comes back
  absent.
\<close>

theorem roundtrip:
  assumes "valid_SourceMessage m" and "valid_ServerMessage a"
  shows "sum_bind (SourceMessage_encode m) SourceMessage_decode
           = Inr (m\<lparr>data := wire_data (SourceMessage.data m)\<rparr>)
         \<and> fields (wire_data (SourceMessage.data m)) = fields (SourceMessage.data m)
         \<and> sum_bind (ServerMessage_encode a) ServerMessage_decode = Inr a"
proof -
  from assms(1) have "case SourceMessage.data m of None \<Rightarrow> True | Some kvs \<Rightarrow> distinct (map fst kvs)"
    by (simp add: valid_SourceMessage_def split: option.splits)
  then have "fields (wire_data (SourceMessage.data m)) = fields (SourceMessage.data m)"
    by (rule fields_wire_data)
  then show ?thesis
    using roundtrip_SourceMessage [OF assms(1)] roundtrip_ServerMessage [OF assms(2)] by simp
qed

theorem roundtrip_witness:
  "sum_bind (SourceMessage_encode msg_def_abc) SourceMessage_decode = Inr msg_abc_fields
   \<and> fields (SourceMessage.data msg_abc_fields) = fields (SourceMessage.data msg_def_abc)
   \<and> sum_bind (ServerMessage_encode ack_1) ServerMessage_decode = Inr ack_1"
  using roundtrip [OF valid_msg_def_abc valid_ack_1]
  by (simp add: msg_def_abc_def msg_abc_fields_def wire_data_def)

text \<open>
  C2 as stated fails: the identifier \<open>a\0b\<close> is a text of 3 bytes, and the round trip
  gives the identifier \<open>ab\<close>; an empty field map comes back as \<open>None\<close>.
\<close>

theorem roundtrip_counterexample:
  "wire_text (SourceMessage.source_id msg_nul)
   \<and> sum_bind (SourceMessage_encode msg_nul) SourceMessage_decode
       = Inr (msg_nul\<lparr>SourceMessage.source_id := ''ab''\<rparr>)
   \<and> SourceMessage.source_id msg_nul \<noteq> ''ab''
   \<and> sum_bind (SourceMessage_encode (msg_abc\<lparr>data := Some []\<rparr>)) SourceMessage_decode
       = Inr (msg_abc\<lparr>data := None\<rparr>)"
  by code_simp




end
